theory Spec2Isabelle
  imports Main "HOL-Library.Sublist"
begin

section \<open>Documents of the store\<close>

text \<open>
  The dashboard reads its records from the document store as Python dictionaries
  decoded from JSON. A record is an association list from field names to JSON values,
  each field name occurring once, so a field that is absent differs from a field that
  holds \<open>null\<close>. Numbers are
  integers (the data model has no other kind). A \<open>string\<close> holds one \<open>char\<close> per code
  point, which covers the code points below 256; the accented letters of the French
  labels are written with their code point (\<open>CHR 0xE9\<close> is e acute).
\<close>

datatype json =
    JNull
  | JBool bool
  | JInt int
  | JStr string
  | JArr "json list"
  | JObj "(string \<times> json) list"

type_synonym doc = "(string \<times> json) list"

datatype py_error = TypeError | AttributeError | DataAccessError string

text \<open>\<open>d.get(k, dflt)\<close>: the stored value when the key is present, even \<open>null\<close>.\<close>

definition dict_get :: "doc \<Rightarrow> string \<Rightarrow> json \<Rightarrow> json" where
  "dict_get d k dflt = (case map_of d k of None \<Rightarrow> dflt | Some v \<Rightarrow> v)"

text \<open>The truth value Python gives a value in a condition.\<close>

fun truthy :: "json \<Rightarrow> bool" where
  "truthy JNull = False"
| "truthy (JBool b) = b"
| "truthy (JInt n) = (n \<noteq> 0)"
| "truthy (JStr s) = (s \<noteq> [])"
| "truthy (JArr xs) = (xs \<noteq> [])"
| "truthy (JObj kvs) = (kvs \<noteq> [])"

text \<open>\<open>len(v)\<close>: defined on strings, lists and dictionaries, a \<open>TypeError\<close> otherwise.\<close>

fun py_len :: "json \<Rightarrow> py_error + nat" where
  "py_len (JArr xs) = Inr (length xs)"
| "py_len (JStr s) = Inr (length s)"
| "py_len (JObj kvs) = Inr (length (remdups (map fst kvs)))"
| "py_len JNull = Inl TypeError"
| "py_len (JBool b) = Inl TypeError"
| "py_len (JInt n) = Inl TypeError"

text \<open>
  \<open>for x in v\<close>: the elements of a list, the characters of a string, the keys of a
  dictionary; a \<open>TypeError\<close> on a value that is not iterable.
\<close>

fun py_iter :: "json \<Rightarrow> py_error + json list" where
  "py_iter (JArr xs) = Inr xs"
| "py_iter (JStr s) = Inr (map (\<lambda>c. JStr [c]) s)"
| "py_iter (JObj kvs) = Inr (map JStr (remdups (map fst kvs)))"
| "py_iter JNull = Inl TypeError"
| "py_iter (JBool b) = Inl TypeError"
| "py_iter (JInt n) = Inl TypeError"

subsection \<open>Strings\<close>

text \<open>
  \<open>str.lower\<close> on the code points below 256: the capital letters are \<open>A\<close> to \<open>Z\<close>,
  \<open>0xC0\<close> to \<open>0xD6\<close> and \<open>0xD8\<close> to \<open>0xDE\<close>, and the small letter is 32 above the
  capital one, which sets the bit of weight 32.
\<close>

definition chr_lower :: "char \<Rightarrow> char" where
  "chr_lower c =
     (let n = (of_char c :: nat)
      in if (65 \<le> n \<and> n \<le> 90) \<or> (192 \<le> n \<and> n \<le> 214) \<or> (216 \<le> n \<and> n \<le> 222)
         then (case c of Char b0 b1 b2 b3 b4 b5 b6 b7 \<Rightarrow> Char b0 b1 b2 b3 b4 True b6 b7)
         else c)"

definition lower :: "string \<Rightarrow> string" where
  "lower s = map chr_lower s"

text \<open>\<open>v.lower()\<close> on a value read from a record: only a string has the method.\<close>

fun py_lower :: "json \<Rightarrow> py_error + string" where
  "py_lower (JStr s) = Inr (lower s)"
| "py_lower JNull = Inl AttributeError"
| "py_lower (JBool b) = Inl AttributeError"
| "py_lower (JInt n) = Inl AttributeError"
| "py_lower (JArr xs) = Inl AttributeError"
| "py_lower (JObj kvs) = Inl AttributeError"

text \<open>\<open>t in s\<close> on two strings: \<open>t\<close> occurs in \<open>s\<close> as a contiguous run.\<close>

fun str_in :: "string \<Rightarrow> string \<Rightarrow> bool" where
  "str_in t [] = (t = [])"
| "str_in t (c # cs) = (prefix t (c # cs) \<or> str_in t cs)"

text \<open>
  The test every search of the dashboard makes:
  \<open>term.lower() in v.lower()\<close>, where \<open>v\<close> was read from a record.
\<close>

definition lower_in :: "string \<Rightarrow> json \<Rightarrow> py_error + bool" where
  "lower_in t v = (case py_lower v of Inl e \<Rightarrow> Inl e | Inr s \<Rightarrow> Inr (str_in (lower t) s))"

text \<open>The same test on two strings: \<open>t\<close> is a case-insensitive substring of \<open>s\<close>.\<close>

definition ci_substring :: "string \<Rightarrow> string \<Rightarrow> bool" where
  "ci_substring t s = str_in (lower t) (lower s)"

subsection \<open>Hashable values\<close>

text \<open>
  The keys of a dictionary and the elements of a set are hashable values, taken up to
  Python's equality: \<open>True\<close> and \<open>1\<close> are one key, so are \<open>False\<close> and \<open>0\<close>. Lists and
  dictionaries are not hashable.
\<close>

datatype key = KNone | KNum int | KStr string

fun py_hash :: "json \<Rightarrow> py_error + key" where
  "py_hash JNull = Inr KNone"
| "py_hash (JBool b) = Inr (KNum (if b then 1 else 0))"
| "py_hash (JInt n) = Inr (KNum n)"
| "py_hash (JStr s) = Inr (KStr s)"
| "py_hash (JArr xs) = Inl TypeError"
| "py_hash (JObj kvs) = Inl TypeError"

text \<open>\<open>v == k\<close> for a value read from a record and a hashable value.\<close>

fun py_eq :: "json \<Rightarrow> key \<Rightarrow> bool" where
  "py_eq JNull k = (k = KNone)"
| "py_eq (JBool b) k = (k = KNum (if b then 1 else 0))"
| "py_eq (JInt n) k = (k = KNum n)"
| "py_eq (JStr s) k = (k = KStr s)"
| "py_eq (JArr xs) k = False"
| "py_eq (JObj kvs) k = False"

text \<open>
  A list comprehension whose condition may raise: the conditions are evaluated in the
  order of the list, and the first exception ends the comprehension.
\<close>

fun filterE :: "('a \<Rightarrow> py_error + bool) \<Rightarrow> 'a list \<Rightarrow> py_error + 'a list" where
  "filterE p [] = Inr []"
| "filterE p (x # xs) =
     (case p x of
        Inl e \<Rightarrow> Inl e
      | Inr b \<Rightarrow>
          (case filterE p xs of
             Inl e \<Rightarrow> Inl e
           | Inr ys \<Rightarrow> Inr (if b then x # ys else ys)))"

section \<open>Overview page: statistics\<close>

text \<open>
  \<open>total_messages = sum(len(c.get('messages', [])) for c in conversations)\<close>:
  \<open>sum\<close> starts from 0 and adds the terms in the order of the list.
\<close>

fun sum_len :: "doc list \<Rightarrow> nat \<Rightarrow> py_error + nat" where
  "sum_len [] acc = Inr acc"
| "sum_len (c # cs) acc =
     (case py_len (dict_get c ''messages'' (JArr [])) of
        Inl e \<Rightarrow> Inl e
      | Inr n \<Rightarrow> sum_len cs (acc + n))"

definition total_messages :: "doc list \<Rightarrow> py_error + nat" where
  "total_messages conversations = sum_len conversations 0"

text \<open>
  The message sequence of a conversation of the data model: the list stored under
  \<open>messages\<close>, empty when the field is absent.
\<close>

definition messages_ok :: "doc \<Rightarrow> bool" where
  "messages_ok c =
     (case map_of c ''messages'' of None \<Rightarrow> True | Some (JArr ms) \<Rightarrow> True | Some _ \<Rightarrow> False)"

definition message_seq :: "doc \<Rightarrow> json list" where
  "message_seq c = (case map_of c ''messages'' of Some (JArr ms) \<Rightarrow> ms | _ \<Rightarrow> [])"

text \<open>
  The plan histogram (lines 222 to 225). A Python dictionary keeps its keys in the order
  of their first insertion, and an assignment to a key that is present keeps its place.
\<close>

fun dict_set :: "('k \<times> 'v) list \<Rightarrow> 'k \<Rightarrow> 'v \<Rightarrow> ('k \<times> 'v) list" where
  "dict_set [] k v = [(k, v)]"
| "dict_set ((k', v') # kvs) k v =
     (if k' = k then (k', v) # kvs else (k', v') # dict_set kvs k v)"

definition counts_get :: "(key \<times> nat) list \<Rightarrow> key \<Rightarrow> nat \<Rightarrow> nat" where
  "counts_get plan_counts k dflt = (case map_of plan_counts k of None \<Rightarrow> dflt | Some n \<Rightarrow> n)"

fun plan_counts_loop :: "doc list \<Rightarrow> (key \<times> nat) list \<Rightarrow> py_error + (key \<times> nat) list" where
  "plan_counts_loop [] plan_counts = Inr plan_counts"
| "plan_counts_loop (user # users) plan_counts =
     (case py_hash (dict_get user ''plan'' (JStr ''unknown'')) of
        Inl e \<Rightarrow> Inl e
      | Inr plan \<Rightarrow>
          plan_counts_loop users
            (dict_set plan_counts plan (counts_get plan_counts plan 0 + 1)))"

definition plan_counts :: "doc list \<Rightarrow> py_error + (key \<times> nat) list" where
  "plan_counts users = plan_counts_loop users []"

text \<open>
  The plan of a user of the data model: a string when the field is present; the
  histogram's bucket for the user is that string, and \<open>unknown\<close> when the field is absent.
\<close>

definition plan_ok :: "doc \<Rightarrow> bool" where
  "plan_ok u =
     (case map_of u ''plan'' of None \<Rightarrow> True | Some (JStr p) \<Rightarrow> True | Some _ \<Rightarrow> False)"

definition plan_bucket :: "doc \<Rightarrow> string" where
  "plan_bucket u = (case map_of u ''plan'' of Some (JStr p) \<Rightarrow> p | _ \<Rightarrow> ''unknown'')"

section \<open>Users page\<close>

text \<open>
  The options of the plan selector (line 258): \<open>Tous\<close>, then the plans of the snapshot
  as a set, an absent plan standing as \<open>unknown\<close>. The order in which a set lists its
  elements is not fixed; here it is the order of first occurrence.
\<close>

fun hash_all :: "json list \<Rightarrow> py_error + key list" where
  "hash_all [] = Inr []"
| "hash_all (v # vs) =
     (case py_hash v of
        Inl e \<Rightarrow> Inl e
      | Inr k \<Rightarrow> (case hash_all vs of Inl e \<Rightarrow> Inl e | Inr ks \<Rightarrow> Inr (k # ks)))"

definition plan_options :: "doc list \<Rightarrow> py_error + key list" where
  "plan_options users =
     (case hash_all (map (\<lambda>u. dict_get u ''plan'' (JStr ''unknown'')) users) of
        Inl e \<Rightarrow> Inl e
      | Inr ks \<Rightarrow> Inr (KStr ''Tous'' # remdups ks))"

text \<open>The two labels of the verification selector that switch a filter on.\<close>

definition Verifies :: string where
  "Verifies = ''V'' @ [CHR 0xE9] @ ''rifi'' @ [CHR 0xE9] @ ''s''"

definition Non_verifies :: string where
  "Non_verifies = ''Non v'' @ [CHR 0xE9] @ ''rifi'' @ [CHR 0xE9] @ ''s''"

text \<open>The two conditions of the user filter, as lines 265 to 269 write them.\<close>

definition plan_matches :: "key \<Rightarrow> doc \<Rightarrow> bool" where
  "plan_matches filter_plan u = py_eq (dict_get u ''plan'' JNull) filter_plan"

definition is_verified :: "doc \<Rightarrow> bool" where
  "is_verified u = truthy (dict_get u ''is_verified'' (JBool False))"

definition filtered_users :: "doc list \<Rightarrow> key \<Rightarrow> string \<Rightarrow> doc list" where
  "filtered_users users filter_plan filter_verified =
     (let by_plan =
            (if filter_plan \<noteq> KStr ''Tous''
             then filter (plan_matches filter_plan) users
             else users)
      in if filter_verified = Verifies then filter is_verified by_plan
         else if filter_verified = Non_verifies then filter (\<lambda>u. \<not> is_verified u) by_plan
         else by_plan)"

subsection \<open>Export\<close>

definition Prenom :: string where
  "Prenom = ''Pr'' @ [CHR 0xE9] @ ''nom''"

definition Verifie :: string where
  "Verifie = ''V'' @ [CHR 0xE9] @ ''rifi'' @ [CHR 0xE9]"

definition Cree_le :: string where
  "Cree_le = ''Cr'' @ [CHR 0xE9, CHR 0xE9] @ '' le''"

definition Requetes_quotidiennes :: string where
  "Requetes_quotidiennes = ''Requ'' @ [CHR 0xEA] @ ''tes quotidiennes''"

text \<open>
  A row of the full export (lines 281 to 289) and of the short one (line 308): a
  dictionary written as a literal, so its keys come in the order written.
\<close>

definition export_row :: "doc \<Rightarrow> (string \<times> json) list" where
  "export_row user =
     [(''Email'', dict_get user ''email'' (JStr ''N/A'')),
      (''Plan'', dict_get user ''plan'' (JStr ''N/A'')),
      (Prenom, dict_get user ''firstName'' (JStr ''N/A'')),
      (''Nom'', dict_get user ''lastName'' (JStr ''N/A'')),
      (Verifie, JStr (if is_verified user then ''Oui'' else ''Non'')),
      (Cree_le, dict_get user ''createdAt'' (JStr ''N/A'')),
      (Requetes_quotidiennes, dict_get user ''daily_requests'' (JInt 0))]"

definition export_data :: "doc list \<Rightarrow> (string \<times> json) list list" where
  "export_data filtered = map export_row filtered"

definition simple_row :: "doc \<Rightarrow> (string \<times> json) list" where
  "simple_row user =
     [(''Email'', dict_get user ''email'' (JStr ''N/A'')),
      (''Plan'', dict_get user ''plan'' (JStr ''N/A''))]"

definition simple_data :: "doc list \<Rightarrow> (string \<times> json) list list" where
  "simple_data filtered = map simple_row filtered"

section \<open>Conversations page\<close>

text \<open>
  The two conditions of the conversation filter (lines 381 and 383). The title filter
  reads an absent title as the empty string; \<open>lower\<close> raises on a title that is not a
  string, \<open>len\<close> on a \<open>messages\<close> field that has no length.
\<close>

definition title_matches :: "string \<Rightarrow> doc \<Rightarrow> py_error + bool" where
  "title_matches search_term c = lower_in search_term (dict_get c ''title'' (JStr []))"

definition enough_messages :: "int \<Rightarrow> doc \<Rightarrow> py_error + bool" where
  "enough_messages min_messages c =
     (case py_len (dict_get c ''messages'' (JArr [])) of
        Inl e \<Rightarrow> Inl e
      | Inr n \<Rightarrow> Inr (int n \<ge> min_messages))"

definition filtered_convs :: "doc list \<Rightarrow> string \<Rightarrow> int \<Rightarrow> py_error + doc list" where
  "filtered_convs conversations search_term min_messages =
     (case (if search_term \<noteq> []
            then filterE (title_matches search_term) conversations
            else Inr conversations) of
        Inl e \<Rightarrow> Inl e
      | Inr by_title \<Rightarrow>
          if min_messages > 0
          then filterE (enough_messages min_messages) by_title
          else Inr by_title)"

text \<open>The title shown for a conversation (lines 235, 389 and 466).\<close>

definition display_title :: "doc \<Rightarrow> json" where
  "display_title conv = dict_get conv ''title'' (JStr ''Sans titre'')"

text \<open>
  The title of a conversation of the data model: a string when the field is present.
  \<open>title_text\<close> is the text the filter searches.
\<close>

definition title_ok :: "doc \<Rightarrow> bool" where
  "title_ok c =
     (case map_of c ''title'' of None \<Rightarrow> True | Some (JStr s) \<Rightarrow> True | Some _ \<Rightarrow> False)"

definition title_text :: "doc \<Rightarrow> string" where
  "title_text c = (case map_of c ''title'' of Some (JStr s) \<Rightarrow> s | _ \<Rightarrow> [])"

section \<open>Search page\<close>

text \<open>User search (lines 429 to 432).\<close>

definition email_matches :: "string \<Rightarrow> doc \<Rightarrow> py_error + bool" where
  "email_matches search_email u = lower_in search_email (dict_get u ''email'' (JStr []))"

definition id_is :: "string \<Rightarrow> doc \<Rightarrow> bool" where
  "id_is wanted d = py_eq (dict_get d ''id'' JNull) (KStr wanted)"

definition search_users :: "doc list \<Rightarrow> string \<Rightarrow> string \<Rightarrow> py_error + doc list" where
  "search_users users search_email search_user_id =
     (if search_email \<noteq> [] then filterE (email_matches search_email) users
      else if search_user_id \<noteq> [] then Inr (filter (id_is search_user_id) users)
      else Inr [])"

text \<open>
  Conversation search (lines 453 to 461). \<open>msg.get\<close> needs a dictionary. The inner loop
  leaves at the first message that matches, so the messages after it are not read.
\<close>

fun msg_content :: "json \<Rightarrow> py_error + json" where
  "msg_content (JObj kvs) = Inr (dict_get kvs ''content'' (JStr []))"
| "msg_content JNull = Inl AttributeError"
| "msg_content (JBool b) = Inl AttributeError"
| "msg_content (JInt n) = Inl AttributeError"
| "msg_content (JStr s) = Inl AttributeError"
| "msg_content (JArr xs) = Inl AttributeError"

fun scan_messages :: "string \<Rightarrow> json list \<Rightarrow> py_error + bool" where
  "scan_messages search_keyword [] = Inr False"
| "scan_messages search_keyword (msg # msgs) =
     (case msg_content msg of
        Inl e \<Rightarrow> Inl e
      | Inr content \<Rightarrow>
          (case lower_in search_keyword content of
             Inl e \<Rightarrow> Inl e
           | Inr found \<Rightarrow> if found then Inr True else scan_messages search_keyword msgs))"

fun keyword_loop :: "string \<Rightarrow> doc list \<Rightarrow> doc list \<Rightarrow> py_error + doc list" where
  "keyword_loop search_keyword [] results = Inr results"
| "keyword_loop search_keyword (conv # convs) results =
     (case py_iter (dict_get conv ''messages'' (JArr [])) of
        Inl e \<Rightarrow> Inl e
      | Inr messages \<Rightarrow>
          (case scan_messages search_keyword messages of
             Inl e \<Rightarrow> Inl e
           | Inr found \<Rightarrow>
               keyword_loop search_keyword convs
                 (if found then results @ [conv] else results)))"

definition search_conversations :: "doc list \<Rightarrow> string \<Rightarrow> string \<Rightarrow> py_error + doc list" where
  "search_conversations conversations search_conv_id search_keyword =
     (if search_conv_id \<noteq> [] then Inr (filter (id_is search_conv_id) conversations)
      else if search_keyword \<noteq> [] then keyword_loop search_keyword conversations []
      else Inr [])"

text \<open>
  A message of the data model is a dictionary whose \<open>content\<close>, when present, is a
  string; a conversation of the data model has a list of such messages, or no
  \<open>messages\<close> field. \<open>has_keyword\<close> says that some message of the conversation has the
  term in its content, whatever the case of the letters.
\<close>

definition message_ok :: "json \<Rightarrow> bool" where
  "message_ok m =
     (case m of
        JObj kvs \<Rightarrow>
          (case map_of kvs ''content'' of None \<Rightarrow> True | Some (JStr s) \<Rightarrow> True | Some _ \<Rightarrow> False)
      | _ \<Rightarrow> False)"

definition message_text :: "json \<Rightarrow> string" where
  "message_text m =
     (case m of
        JObj kvs \<Rightarrow> (case map_of kvs ''content'' of Some (JStr s) \<Rightarrow> s | _ \<Rightarrow> [])
      | _ \<Rightarrow> [])"

definition conv_ok :: "doc \<Rightarrow> bool" where
  "conv_ok c = (messages_ok c \<and> list_all message_ok (message_seq c))"

definition has_keyword :: "string \<Rightarrow> doc \<Rightarrow> bool" where
  "has_keyword kw c = list_ex (\<lambda>m. ci_substring kw (message_text m)) (message_seq c)"

text \<open>The email of a user of the data model: a string when the field is present.\<close>

definition email_ok :: "doc \<Rightarrow> bool" where
  "email_ok u =
     (case map_of u ''email'' of None \<Rightarrow> True | Some (JStr s) \<Rightarrow> True | Some _ \<Rightarrow> False)"

definition email_text :: "doc \<Rightarrow> string" where
  "email_text u = (case map_of u ''email'' of Some (JStr s) \<Rightarrow> s | _ \<Rightarrow> [])"

section \<open>Data access and cache\<close>

text \<open>
  What the store answers to the two bulk queries at the moment they are sent: the
  records, or the exception of the store client.
\<close>

record store =
  users_items :: "py_error + doc list"
  conversations_items :: "py_error + doc list"

text \<open>
  The bodies of \<open>load_users\<close> (lines 93 to 100) and \<open>load_conversations\<close> (lines 103 to
  110): one query each, its items collected in a list; the ordering by creation time is
  done by the store. An exception of the client leaves the function.
\<close>

definition load_users_body :: "store \<Rightarrow> py_error + doc list" where
  "load_users_body st = users_items st"

definition load_conversations_body :: "store \<Rightarrow> py_error + doc list" where
  "load_conversations_body st = conversations_items st"

text \<open>
  Modelled from the spec: the time-bounded memoisation that the decorator
  \<open>st.cache_data(ttl=60)\<close> puts around \<open>load_users\<close> and \<open>load_conversations\<close> (lines 92
  and 102). The decorator belongs to the user-interface library and its code is not in
  the source file. Section 4.2 of the specification: a call returns the last
  successfully loaded snapshot if it is younger than the freshness window of 60
  seconds; otherwise it runs the load, stores the new snapshot with the time of the
  load and returns it; a load that fails surfaces its error and leaves the cache as it
  was. Time is a number of seconds; \<open>issued\<close> lists the queries sent to the store, the
  oldest first.
\<close>

datatype query = Users_query | Conversations_query

record cache =
  users_snapshot :: "(doc list \<times> nat) option"
  conversations_snapshot :: "(doc list \<times> nat) option"
  issued :: "query list"

text \<open>
  Modelled from the spec: the freshness window of the decorator, \<open>ttl=60\<close> at lines 92
  and 102, in seconds.
\<close>

definition ttl :: nat where
  "ttl = 60"

text \<open>
  Modelled from the spec: the lookup of the decorator, whose code is not in the source
  file. A snapshot is served while it is younger than the window.
\<close>

definition cached :: "nat \<Rightarrow> ('a \<times> nat) option \<Rightarrow> 'a option" where
  "cached now snapshot =
     (case snapshot of
        None \<Rightarrow> None
      | Some (v, loaded_at) \<Rightarrow> if now < loaded_at + ttl then Some v else None)"

text \<open>
  Modelled from the spec: \<open>load_users\<close> as decorated at line 92; the wrapper of the
  decorator is not in the source file, the body it calls is \<open>load_users_body\<close>.
\<close>

definition load_users :: "nat \<Rightarrow> store \<Rightarrow> cache \<Rightarrow> (py_error + doc list) \<times> cache" where
  "load_users now st c =
     (case cached now (users_snapshot c) of
        Some v \<Rightarrow> (Inr v, c)
      | None \<Rightarrow>
          (case load_users_body st of
             Inl e \<Rightarrow> (Inl e, c\<lparr>issued := issued c @ [Users_query]\<rparr>)
           | Inr v \<Rightarrow>
               (Inr v, c\<lparr>users_snapshot := Some (v, now),
                          issued := issued c @ [Users_query]\<rparr>)))"

text \<open>
  Modelled from the spec: \<open>load_conversations\<close> as decorated at line 102; the wrapper of
  the decorator is not in the source file, the body it calls is
  \<open>load_conversations_body\<close>.
\<close>

definition load_conversations :: "nat \<Rightarrow> store \<Rightarrow> cache \<Rightarrow> (py_error + doc list) \<times> cache" where
  "load_conversations now st c =
     (case cached now (conversations_snapshot c) of
        Some v \<Rightarrow> (Inr v, c)
      | None \<Rightarrow>
          (case load_conversations_body st of
             Inl e \<Rightarrow> (Inl e, c\<lparr>issued := issued c @ [Conversations_query]\<rparr>)
           | Inr v \<Rightarrow>
               (Inr v, c\<lparr>conversations_snapshot := Some (v, now),
                          issued := issued c @ [Conversations_query]\<rparr>)))"

section \<open>Properties\<close>

subsection \<open>Helper lemmas\<close>

lemma str_in_sublist: "str_in t s \<longleftrightarrow> sublist t s"
  by (induction s) (simp_all add: sublist_Cons_right)

lemma length_lower [simp]: "length (lower s) = length s"
  by (simp add: lower_def)

lemma lower_Nil_iff [simp]: "lower s = [] \<longleftrightarrow> s = []"
  by (simp add: lower_def)

lemma lower_in_JStr: "lower_in t (JStr s) = Inr (ci_substring t s)"
  by (simp add: lower_in_def ci_substring_def)

lemma ci_substring_sublist: "ci_substring t s \<longleftrightarrow> sublist (lower t) (lower s)"
  by (simp add: ci_substring_def str_in_sublist)

lemma ci_substring_empty: "ci_substring t [] \<longleftrightarrow> t = []"
  by (simp add: ci_substring_def lower_def)

lemma filterE_total:
  "\<forall>x\<in>set xs. p x = Inr (q x) \<Longrightarrow> filterE p xs = Inr (filter q xs)"
  by (induction xs) simp_all

lemma filterE_Inr:
  "filterE p xs = Inr ys \<Longrightarrow> ys = filter (\<lambda>x. p x = Inr True) xs"
  by (induction xs arbitrary: ys) (auto split: sum.splits if_splits)

lemma py_len_messages:
  "messages_ok c \<Longrightarrow> py_len (dict_get c ''messages'' (JArr [])) = Inr (length (message_seq c))"
  by (auto simp: messages_ok_def message_seq_def dict_get_def split: option.splits json.splits)

lemma py_iter_messages:
  "messages_ok c \<Longrightarrow> py_iter (dict_get c ''messages'' (JArr [])) = Inr (message_seq c)"
  by (auto simp: messages_ok_def message_seq_def dict_get_def split: option.splits json.splits)

lemma sum_len_acc:
  "\<forall>c\<in>set cs. messages_ok c \<Longrightarrow>
   sum_len cs acc = Inr (acc + sum_list (map (\<lambda>c. length (message_seq c)) cs))"
  by (induction cs arbitrary: acc) (simp_all add: py_len_messages)

subsection \<open>Total message count\<close>

text \<open>
  Claim C9. For every conversation snapshot of the data model (the \<open>messages\<close> field of
  each conversation is absent or a list), the total message count of the overview page
  is computed without error and equals the sum, over the conversations of the snapshot,
  of the length of the message sequence, where a conversation without the field
  contributes 0.
\<close>

theorem total_messages_sum:
  assumes "\<forall>c\<in>set conversations. messages_ok c"
  shows "total_messages conversations
           = Inr (sum_list (map (\<lambda>c. length (message_seq c)) conversations))"
  using sum_len_acc [OF assms, of 0] by (simp add: total_messages_def)

theorem total_messages_sum_witness:
  "total_messages
     [[(''id'', JStr ''c1''), (''messages'', JArr [JObj [(''content'', JStr ''Hello world'')],
                                                   JObj [(''content'', JStr ''Hi'')]])],
      [(''id'', JStr ''c2'')],
      [(''id'', JStr ''c3''), (''messages'', JArr [JObj [(''content'', JStr ''Goodbye'')]])]]
   = Inr 3"
proof -
  let ?convs =
    "[[(''id'', JStr ''c1''), (''messages'', JArr [JObj [(''content'', JStr ''Hello world'')],
                                                   JObj [(''content'', JStr ''Hi'')]])],
      [(''id'', JStr ''c2'')],
      [(''id'', JStr ''c3''), (''messages'', JArr [JObj [(''content'', JStr ''Goodbye'')]])]]"
  have h: "\<forall>c\<in>set ?convs. messages_ok c"
    by (simp add: messages_ok_def)
  show ?thesis
    using total_messages_sum [OF h] by (simp add: message_seq_def)
qed

subsection \<open>Plan histogram\<close>

lemma counts_get_dict_set:
  "counts_get (dict_set pc k v) k' d = (if k' = k then v else counts_get pc k' d)"
  by (induction pc k v rule: dict_set.induct) (auto simp: counts_get_def)

lemma keys_dict_set:
  "map fst (dict_set pc k v) = (if k \<in> fst ` set pc then map fst pc else map fst pc @ [k])"
  by (induction pc k v rule: dict_set.induct) auto

lemma distinct_dict_set:
  "distinct (map fst pc) \<Longrightarrow> distinct (map fst (dict_set pc k v))"
  by (auto simp: keys_dict_set)

lemma set_keys_dict_set: "fst ` set (dict_set pc k v) = insert k (fst ` set pc)"
proof -
  have "set (map fst (dict_set pc k v)) = insert k (set (map fst pc))"
    unfolding keys_dict_set by auto
  then show ?thesis by simp
qed

lemma sum_dict_set:
  "sum_list (map snd (dict_set pc k (counts_get pc k 0 + 1))) = sum_list (map snd pc) + 1"
  by (induction pc k "counts_get pc k 0 + 1" rule: dict_set.induct)
     (auto simp: counts_get_def)

lemma py_hash_plan:
  "plan_ok u \<Longrightarrow> py_hash (dict_get u ''plan'' (JStr ''unknown'')) = Inr (KStr (plan_bucket u))"
  by (auto simp: plan_ok_def plan_bucket_def dict_get_def split: option.splits json.splits)

lemma plan_counts_loop_inv:
  "\<forall>u\<in>set users. plan_ok u \<Longrightarrow> distinct (map fst pc) \<Longrightarrow>
   \<exists>pc'. plan_counts_loop users pc = Inr pc' \<and> distinct (map fst pc')
     \<and> (\<forall>b. counts_get pc' (KStr b) 0
             = counts_get pc (KStr b) 0 + length (filter (\<lambda>u. plan_bucket u = b) users))
     \<and> sum_list (map snd pc') = sum_list (map snd pc) + length users
     \<and> fst ` set pc' = fst ` set pc \<union> (\<lambda>u. KStr (plan_bucket u)) ` set users"
proof (induction users arbitrary: pc)
  case Nil
  then show ?case by simp
next
  case (Cons u us)
  let ?k = "KStr (plan_bucket u)"
  let ?pc1 = "dict_set pc ?k (counts_get pc ?k 0 + 1)"
  from Cons.prems have ok: "plan_ok u" and oks: "\<forall>u\<in>set us. plan_ok u" by simp_all
  have d1: "distinct (map fst ?pc1)" using Cons.prems(2) by (rule distinct_dict_set)
  from Cons.IH [OF oks d1] obtain pc' where
    r: "plan_counts_loop us ?pc1 = Inr pc'" and d: "distinct (map fst pc')"
    and c: "\<forall>b. counts_get pc' (KStr b) 0
              = counts_get ?pc1 (KStr b) 0 + length (filter (\<lambda>u. plan_bucket u = b) us)"
    and s: "sum_list (map snd pc') = sum_list (map snd ?pc1) + length us"
    and k: "fst ` set pc' = fst ` set ?pc1 \<union> (\<lambda>u. KStr (plan_bucket u)) ` set us"
    by blast
  have "plan_counts_loop (u # us) pc = Inr pc'"
    using r by (simp add: py_hash_plan [OF ok])
  moreover have "\<forall>b. counts_get pc' (KStr b) 0
      = counts_get pc (KStr b) 0 + length (filter (\<lambda>u. plan_bucket u = b) (u # us))"
    using c by (simp add: counts_get_dict_set)
  moreover have "sum_list (map snd pc') = sum_list (map snd pc) + length (u # us)"
    using s sum_dict_set [of pc ?k] by simp
  moreover have "fst ` set pc' = fst ` set pc \<union> (\<lambda>u. KStr (plan_bucket u)) ` set (u # us)"
    using k by (auto simp: set_keys_dict_set)
  ultimately show ?case using d by blast
qed

text \<open>
  Claim C4. For every user snapshot of the data model (the plan of each user is absent
  or a string), the plan histogram is computed without error; the bucket of a user
  whose plan is absent is \<open>unknown\<close> and the bucket of a user whose plan is present is
  that plan; the count of every bucket is the number of users of the snapshot that have
  this bucket; the histogram has one entry for each bucket that occurs, and no other;
  and the counts add up to the number of users.
\<close>

theorem plan_counts_histogram:
  assumes "\<forall>u\<in>set users. plan_ok u"
  shows "\<exists>pc. plan_counts users = Inr pc
      \<and> (\<forall>u\<in>set users. map_of u ''plan'' = None \<longrightarrow> plan_bucket u = ''unknown'')
      \<and> (\<forall>u\<in>set users. \<forall>p. map_of u ''plan'' = Some (JStr p) \<longrightarrow> plan_bucket u = p)
      \<and> (\<forall>b. counts_get pc (KStr b) 0 = length (filter (\<lambda>u. plan_bucket u = b) users))
      \<and> fst ` set pc = (\<lambda>u. KStr (plan_bucket u)) ` set users
      \<and> distinct (map fst pc)
      \<and> sum_list (map snd pc) = length users"
proof -
  from plan_counts_loop_inv [OF assms, of "[]"] obtain pc where
    "plan_counts_loop users [] = Inr pc" "distinct (map fst pc)"
    "\<forall>b. counts_get pc (KStr b) 0
        = counts_get [] (KStr b) 0 + length (filter (\<lambda>u. plan_bucket u = b) users)"
    "sum_list (map snd pc) = sum_list (map snd []) + length users"
    "fst ` set pc = fst ` set [] \<union> (\<lambda>u. KStr (plan_bucket u)) ` set users"
    by auto
  then show ?thesis
    by (simp add: plan_counts_def counts_get_def plan_bucket_def)
qed

theorem plan_counts_histogram_witness:
  "\<exists>pc. plan_counts
          [[(''id'', JStr ''u1''), (''plan'', JStr ''pro'')],
           [(''id'', JStr ''u2''), (''plan'', JStr ''free'')],
           [(''id'', JStr ''u3''), (''plan'', JStr ''pro'')],
           [(''id'', JStr ''u4'')]] = Inr pc
      \<and> counts_get pc (KStr ''pro'') 0 = 2
      \<and> counts_get pc (KStr ''free'') 0 = 1
      \<and> counts_get pc (KStr ''unknown'') 0 = 1
      \<and> sum_list (map snd pc) = 4"
proof -
  let ?users =
    "[[(''id'', JStr ''u1''), (''plan'', JStr ''pro'')],
      [(''id'', JStr ''u2''), (''plan'', JStr ''free'')],
      [(''id'', JStr ''u3''), (''plan'', JStr ''pro'')],
      [(''id'', JStr ''u4'')]]"
  have h: "\<forall>u\<in>set ?users. plan_ok u"
    by (simp add: plan_ok_def)
  from plan_counts_histogram [OF h] obtain pc where
    r: "plan_counts ?users = Inr pc"
    and c: "\<forall>b. counts_get pc (KStr b) 0 = length (filter (\<lambda>u. plan_bucket u = b) ?users)"
    and s: "sum_list (map snd pc) = length ?users"
    by blast
  have "counts_get pc (KStr ''pro'') 0 = 2" "counts_get pc (KStr ''free'') 0 = 1"
    "counts_get pc (KStr ''unknown'') 0 = 1"
    using c by (simp_all add: plan_bucket_def)
  with r s show ?thesis by simp
qed

subsection \<open>User filter\<close>

text \<open>
  Claim C3. A user whose plan field is absent is treated as having the plan \<open>unknown\<close>:
  the histogram counts the user under \<open>unknown\<close> and the plan selector offers
  \<open>unknown\<close> for the user. The filter does not: line 265 compares \<open>u.get('plan')\<close>,
  which is \<open>None\<close> for this user, with the selected value. On the snapshot of one user
  without a plan, the selector offers \<open>unknown\<close>, and selecting it leaves no user.
\<close>

theorem unknown_plan_filter_drops_absent_plan:
  "map_of [(''id'', JStr ''u1''), (''email'', JStr ''a@b.c'')] ''plan'' = None
   \<and> plan_counts [[(''id'', JStr ''u1''), (''email'', JStr ''a@b.c'')]]
       = Inr [(KStr ''unknown'', 1)]
   \<and> plan_options [[(''id'', JStr ''u1''), (''email'', JStr ''a@b.c'')]]
       = Inr [KStr ''Tous'', KStr ''unknown'']
   \<and> filtered_users [[(''id'', JStr ''u1''), (''email'', JStr ''a@b.c'')]]
        (KStr ''unknown'') ''Tous'' = []"
  by (simp add: plan_counts_def counts_get_def plan_options_def filtered_users_def
      plan_matches_def dict_get_def Verifies_def Non_verifies_def)

subsection \<open>Filters of the two lists\<close>

lemma title_matches_ok:
  "title_ok c \<Longrightarrow> title_matches t c = Inr (ci_substring t (title_text c))"
  by (auto simp: title_ok_def title_matches_def title_text_def dict_get_def lower_in_JStr
      split: option.splits json.splits)

lemma enough_messages_ok:
  "messages_ok c \<Longrightarrow> enough_messages n c = Inr (n \<le> int (length (message_seq c)))"
  by (auto simp: messages_ok_def enough_messages_def message_seq_def dict_get_def
      split: option.splits json.splits)

lemma filtered_users_filter:
  "filtered_users users fp fv =
     filter (\<lambda>u. (fp \<noteq> KStr ''Tous'' \<longrightarrow> plan_matches fp u)
                \<and> (fv = Verifies \<longrightarrow> is_verified u)
                \<and> (fv = Non_verifies \<longrightarrow> \<not> is_verified u)) users"
proof -
  have "Verifies \<noteq> Non_verifies" by (simp add: Verifies_def Non_verifies_def)
  then show ?thesis by (auto simp: filtered_users_def Let_def intro: filter_cong)
qed

lemma filtered_convs_filter:
  assumes "\<forall>c\<in>set convs. title_ok c \<and> messages_ok c"
  shows "filtered_convs convs t n =
     Inr (filter (\<lambda>c. (t \<noteq> [] \<longrightarrow> ci_substring t (title_text c))
                     \<and> (n > 0 \<longrightarrow> n \<le> int (length (message_seq c)))) convs)"
proof -
  have a: "filterE (title_matches t) convs
             = Inr (filter (\<lambda>c. ci_substring t (title_text c)) convs)"
    using assms by (intro filterE_total) (simp add: title_matches_ok)
  have b: "filterE (enough_messages n) xs
             = Inr (filter (\<lambda>c. n \<le> int (length (message_seq c))) xs)"
    if "set xs \<subseteq> set convs" for xs
    using assms that by (intro filterE_total) (auto simp: enough_messages_ok)
  show ?thesis
    by (auto simp: filtered_convs_def a b intro: filter_cong)
qed

text \<open>
  Claim C6. The user filter, for every selected plan and every verification choice:
  the result is a subsequence of the snapshot in its order; every user of the result
  has the selected plan when a plan other than \<open>Tous\<close> is selected, is verified when
  the verified users are asked for and is not when the others are; and the result is
  exactly the users that pass the conditions switched on, so that a condition left on
  \<open>Tous\<close> removes nobody. The conversation filter, for every search term and every
  minimum, on a snapshot of the data model (titles are strings, messages are lists):
  it returns a result, a subsequence of the snapshot in its order; every conversation of
  the result has the term in its title, whatever the case of the letters, when the term
  is not empty, and at least the minimum number of messages when the minimum is above 0;
  and the result is exactly the conversations that pass the conditions switched on.
\<close>

theorem filter_conjunction:
  "subseq (filtered_users users fp fv) users
   \<and> (\<forall>u\<in>set (filtered_users users fp fv).
         (fp \<noteq> KStr ''Tous'' \<longrightarrow> plan_matches fp u)
         \<and> (fv = Verifies \<longrightarrow> is_verified u)
         \<and> (fv = Non_verifies \<longrightarrow> \<not> is_verified u))
   \<and> filtered_users users fp fv =
       filter (\<lambda>u. (fp \<noteq> KStr ''Tous'' \<longrightarrow> plan_matches fp u)
                  \<and> (fv = Verifies \<longrightarrow> is_verified u)
                  \<and> (fv = Non_verifies \<longrightarrow> \<not> is_verified u)) users
   \<and> ((\<forall>c\<in>set convs. title_ok c \<and> messages_ok c) \<longrightarrow>
        (\<exists>r. filtered_convs convs t n = Inr r
           \<and> subseq r convs
           \<and> (\<forall>c\<in>set r. (t \<noteq> [] \<longrightarrow> ci_substring t (title_text c))
                        \<and> (n > 0 \<longrightarrow> n \<le> int (length (message_seq c))))
           \<and> r = filter (\<lambda>c. (t \<noteq> [] \<longrightarrow> ci_substring t (title_text c))
                           \<and> (n > 0 \<longrightarrow> n \<le> int (length (message_seq c)))) convs))"
proof (intro conjI impI)
  show "subseq (filtered_users users fp fv) users"
    by (simp add: filtered_users_filter)
  show "\<forall>u\<in>set (filtered_users users fp fv).
         (fp \<noteq> KStr ''Tous'' \<longrightarrow> plan_matches fp u)
         \<and> (fv = Verifies \<longrightarrow> is_verified u)
         \<and> (fv = Non_verifies \<longrightarrow> \<not> is_verified u)"
    by (simp add: filtered_users_filter)
  show "filtered_users users fp fv =
       filter (\<lambda>u. (fp \<noteq> KStr ''Tous'' \<longrightarrow> plan_matches fp u)
                  \<and> (fv = Verifies \<longrightarrow> is_verified u)
                  \<and> (fv = Non_verifies \<longrightarrow> \<not> is_verified u)) users"
    by (rule filtered_users_filter)
next
  assume "\<forall>c\<in>set convs. title_ok c \<and> messages_ok c"
  then show "\<exists>r. filtered_convs convs t n = Inr r
           \<and> subseq r convs
           \<and> (\<forall>c\<in>set r. (t \<noteq> [] \<longrightarrow> ci_substring t (title_text c))
                        \<and> (n > 0 \<longrightarrow> n \<le> int (length (message_seq c))))
           \<and> r = filter (\<lambda>c. (t \<noteq> [] \<longrightarrow> ci_substring t (title_text c))
                           \<and> (n > 0 \<longrightarrow> n \<le> int (length (message_seq c)))) convs"
    by (simp add: filtered_convs_filter)
qed

theorem filter_conjunction_witness:
  "filtered_users
     [[(''id'', JStr ''u1''), (''plan'', JStr ''pro''), (''is_verified'', JBool True)],
      [(''id'', JStr ''u2''), (''plan'', JStr ''free''), (''is_verified'', JBool True)],
      [(''id'', JStr ''u3''), (''plan'', JStr ''pro'')],
      [(''id'', JStr ''u4''), (''plan'', JStr ''pro''), (''is_verified'', JBool True)]]
     (KStr ''pro'') Verifies
   = [[(''id'', JStr ''u1''), (''plan'', JStr ''pro''), (''is_verified'', JBool True)],
      [(''id'', JStr ''u4''), (''plan'', JStr ''pro''), (''is_verified'', JBool True)]]
   \<and> filtered_convs
       [[(''id'', JStr ''c1''), (''title'', JStr ''Hello World''),
         (''messages'', JArr [JObj [(''content'', JStr ''a'')], JObj [(''content'', JStr ''b'')]])],
        [(''id'', JStr ''c2''), (''messages'', JArr [JObj [], JObj [], JObj []])],
        [(''id'', JStr ''c3''), (''title'', JStr ''world peace''),
         (''messages'', JArr [JObj [(''content'', JStr ''c'')]])]]
       ''WORLD'' 2
     = Inr [[(''id'', JStr ''c1''), (''title'', JStr ''Hello World''),
             (''messages'', JArr [JObj [(''content'', JStr ''a'')], JObj [(''content'', JStr ''b'')]])]]"
proof -
  let ?users =
    "[[(''id'', JStr ''u1''), (''plan'', JStr ''pro''), (''is_verified'', JBool True)],
      [(''id'', JStr ''u2''), (''plan'', JStr ''free''), (''is_verified'', JBool True)],
      [(''id'', JStr ''u3''), (''plan'', JStr ''pro'')],
      [(''id'', JStr ''u4''), (''plan'', JStr ''pro''), (''is_verified'', JBool True)]]"
  let ?convs =
    "[[(''id'', JStr ''c1''), (''title'', JStr ''Hello World''),
       (''messages'', JArr [JObj [(''content'', JStr ''a'')], JObj [(''content'', JStr ''b'')]])],
      [(''id'', JStr ''c2''), (''messages'', JArr [JObj [], JObj [], JObj []])],
      [(''id'', JStr ''c3''), (''title'', JStr ''world peace''),
       (''messages'', JArr [JObj [(''content'', JStr ''c'')]])]]"
  have h: "\<forall>c\<in>set ?convs. title_ok c \<and> messages_ok c"
    by (simp add: title_ok_def messages_ok_def)
  have v: "Verifies \<noteq> Non_verifies"
    by (simp add: Verifies_def Non_verifies_def)
  note fc = filter_conjunction [of ?users "KStr ''pro''" Verifies ?convs "''WORLD''" 2]
  from fc have
    "filtered_users ?users (KStr ''pro'') Verifies =
       filter (\<lambda>u. (KStr ''pro'' \<noteq> KStr ''Tous'' \<longrightarrow> plan_matches (KStr ''pro'') u)
                  \<and> (Verifies = Verifies \<longrightarrow> is_verified u)
                  \<and> (Verifies = Non_verifies \<longrightarrow> \<not> is_verified u)) ?users"
    by blast
  then have users: "filtered_users ?users (KStr ''pro'') Verifies = [?users ! 0, ?users ! 3]"
    using v by (simp add: plan_matches_def is_verified_def dict_get_def)
  from fc h have
    "filtered_convs ?convs ''WORLD'' 2 =
       Inr (filter (\<lambda>c. (''WORLD'' \<noteq> [] \<longrightarrow> ci_substring ''WORLD'' (title_text c))
                      \<and> ((2::int) > 0 \<longrightarrow> 2 \<le> int (length (message_seq c)))) ?convs)"
    by blast
  then have convs: "filtered_convs ?convs ''WORLD'' 2 = Inr [?convs ! 0]"
    by (simp add: ci_substring_def lower_def chr_lower_def title_text_def message_seq_def)
  from users convs show ?thesis by simp
qed

subsection \<open>Title of a conversation\<close>

lemma title_matches_absent:
  "map_of c ''title'' = None \<Longrightarrow> title_matches t c = Inr (t = [])"
  by (simp add: title_matches_def dict_get_def lower_in_JStr ci_substring_empty)

text \<open>
  Claim C8, as amended. A conversation whose title field is absent is shown with the
  title \<open>Sans titre\<close>. The title filter reads the absent title as the empty string
  (line 381): the title test is true for the empty search term only, no search term
  that is not empty keeps the conversation in the result, and the empty search term
  with the minimum 0 keeps it.
\<close>

theorem absent_title:
  assumes "map_of c ''title'' = None"
  shows "display_title c = JStr ''Sans titre''
       \<and> title_matches t c = Inr (t = [])
       \<and> (t \<noteq> [] \<longrightarrow> filtered_convs convs t n = Inr r \<longrightarrow> c \<notin> set r)
       \<and> filtered_convs [c] [] 0 = Inr [c]"
proof (intro conjI impI)
  show "display_title c = JStr ''Sans titre''"
    using assms by (simp add: display_title_def dict_get_def)
  show tm: "title_matches t c = Inr (t = [])"
    using assms by (rule title_matches_absent)
  show "filtered_convs [c] [] 0 = Inr [c]"
    by (simp add: filtered_convs_def)
  show "c \<notin> set r" if "t \<noteq> []" and "filtered_convs convs t n = Inr r"
  proof
    assume "c \<in> set r"
    from that obtain bt where bt: "filterE (title_matches t) convs = Inr bt"
      and r: "r = bt \<or> filterE (enough_messages n) bt = Inr r"
      by (auto simp: filtered_convs_def split: sum.splits if_splits)
    from r have "set r \<subseteq> set bt"
      using filterE_Inr [of "enough_messages n" bt r] by auto
    with \<open>c \<in> set r\<close> have "c \<in> set bt" by auto
    with filterE_Inr [OF bt] have "title_matches t c = Inr True" by simp
    with tm that(1) show False by simp
  qed
qed

theorem absent_title_witness:
  "display_title [(''id'', JStr ''c1'')] = JStr ''Sans titre''
   \<and> title_matches ''sans'' [(''id'', JStr ''c1'')] = Inr False
   \<and> filtered_convs
       [[(''id'', JStr ''c1'')], [(''id'', JStr ''c2''), (''title'', JStr ''Sans souci'')]]
       ''sans'' 0
     = Inr [[(''id'', JStr ''c2''), (''title'', JStr ''Sans souci'')]]
   \<and> [(''id'', JStr ''c1'')]
       \<notin> set [[(''id'', JStr ''c2''), (''title'', JStr ''Sans souci'')]]
   \<and> filtered_convs [[(''id'', JStr ''c1'')]] [] 0 = Inr [[(''id'', JStr ''c1'')]]"
proof -
  let ?c = "[(''id'', JStr ''c1'')]"
  let ?c2 = "[(''id'', JStr ''c2''), (''title'', JStr ''Sans souci'')]"
  have h: "map_of ?c ''title'' = None" by simp
  have t: "''sans'' \<noteq> []" by simp
  have f: "filtered_convs [?c, ?c2] ''sans'' 0 = Inr [?c2]"
    by (simp add: filtered_convs_def title_matches_def lower_in_def dict_get_def lower_def
        chr_lower_def)
  from absent_title [OF h, of "''sans''" "[?c, ?c2]" 0 "[?c2]"] t f
  show ?thesis by simp
qed

text \<open>
  The claim as first stated fails: \<open>sans\<close> is a case-insensitive substring of the
  placeholder \<open>Sans titre\<close>, and the filter with this term drops the conversation that
  has no title.
\<close>

theorem absent_title_counterexample:
  "map_of [(''id'', JStr ''c1''), (''messages'', JArr [])] ''title'' = None
   \<and> ci_substring ''sans'' ''Sans titre''
   \<and> filtered_convs [[(''id'', JStr ''c1''), (''messages'', JArr [])]] ''sans'' 0 = Inr []"
  by (simp add: ci_substring_def lower_def chr_lower_def filtered_convs_def title_matches_def
      lower_in_def dict_get_def)

subsection \<open>Search page\<close>

lemma message_match_ok:
  "message_ok m \<Longrightarrow>
   \<exists>v. msg_content m = Inr v \<and> lower_in kw v = Inr (ci_substring kw (message_text m))"
  by (cases m)
     (auto simp: message_ok_def message_text_def dict_get_def lower_in_JStr
           split: option.splits json.splits)

lemma scan_messages_ok:
  "list_all message_ok ms \<Longrightarrow>
   scan_messages kw ms = Inr (list_ex (\<lambda>m. ci_substring kw (message_text m)) ms)"
proof (induction ms)
  case Nil
  then show ?case by simp
next
  case (Cons m ms)
  then have "message_ok m"
    and IH: "scan_messages kw ms = Inr (list_ex (\<lambda>m. ci_substring kw (message_text m)) ms)"
    by simp_all
  from message_match_ok [OF \<open>message_ok m\<close>, of kw] obtain v where
    "msg_content m = Inr v" "lower_in kw v = Inr (ci_substring kw (message_text m))"
    by blast
  then show ?case using IH by simp
qed

lemma scan_messages_stops:
  "scan_messages kw ms = Inr True \<Longrightarrow> scan_messages kw (ms @ rest) = Inr True"
  by (induction ms) (auto split: sum.splits if_splits)

lemma keyword_loop_ok:
  "\<forall>c\<in>set convs. conv_ok c \<Longrightarrow>
   keyword_loop kw convs results = Inr (results @ filter (has_keyword kw) convs)"
proof (induction convs arbitrary: results)
  case Nil
  then show ?case by simp
next
  case (Cons c cs)
  then have ok: "messages_ok c" "list_all message_ok (message_seq c)"
    by (simp_all add: conv_ok_def)
  have "scan_messages kw (message_seq c) = Inr (has_keyword kw c)"
    using scan_messages_ok [OF ok(2)] by (simp add: has_keyword_def)
  then show ?case
    using Cons by (simp add: py_iter_messages [OF ok(1)])
qed

lemma email_matches_ok:
  "email_ok u \<Longrightarrow> email_matches e u = Inr (ci_substring e (email_text u))"
  by (auto simp: email_ok_def email_matches_def email_text_def dict_get_def lower_in_JStr
      split: option.splits json.splits)

lemma id_is_iff: "id_is wanted d \<longleftrightarrow> map_of d ''id'' = Some (JStr wanted)"
  by (cases "map_of d ''id''"; cases "the (map_of d ''id'')")
     (auto simp: id_is_def dict_get_def)

text \<open>
  Claim C5. For every conversation snapshot of the data model and every search term
  that is not empty, with no conversation id given, the keyword search returns the
  conversations of the snapshot that have at least one message whose content contains
  the term, whatever the case of the letters, in the order of the snapshot; a
  conversation that matches comes as many times as the snapshot has it (once, when the
  snapshot has it once) and one that does not match never comes; and the scan of the
  messages of one conversation ends at the first match: the messages after it do not
  change its outcome, whatever they are.
\<close>

theorem keyword_search:
  assumes "kw \<noteq> []" and "\<forall>c\<in>set convs. conv_ok c"
  shows "search_conversations convs [] kw = Inr (filter (has_keyword kw) convs)
       \<and> (\<forall>c. count_list (filter (has_keyword kw) convs) c
                = (if has_keyword kw c then count_list convs c else 0))
       \<and> (\<forall>ms rest. scan_messages kw ms = Inr True \<longrightarrow>
             scan_messages kw (ms @ rest) = Inr True)"
proof (intro conjI allI impI)
  show "search_conversations convs [] kw = Inr (filter (has_keyword kw) convs)"
    using assms by (simp add: search_conversations_def keyword_loop_ok)
  show "count_list (filter (has_keyword kw) convs) c
          = (if has_keyword kw c then count_list convs c else 0)" for c
    by (induction convs) auto
  show "scan_messages kw (ms @ rest) = Inr True" if "scan_messages kw ms = Inr True"
    for ms rest
    using that by (rule scan_messages_stops)
qed

theorem keyword_search_witness:
  "search_conversations
     [[(''id'', JStr ''C1''),
       (''messages'', JArr [JObj [(''content'', JStr ''Hello world''), (''isUser'', JBool True)]])],
      [(''id'', JStr ''C2''), (''messages'', JArr [JObj [(''content'', JStr ''Goodbye'')]])]]
     [] ''WORLD''
   = Inr [[(''id'', JStr ''C1''),
           (''messages'', JArr [JObj [(''content'', JStr ''Hello world''), (''isUser'', JBool True)]])]]
   \<and> scan_messages ''WORLD'' ([JObj [(''content'', JStr ''Hello world'')]] @ [JNull]) = Inr True"
proof -
  let ?convs =
    "[[(''id'', JStr ''C1''),
       (''messages'', JArr [JObj [(''content'', JStr ''Hello world''), (''isUser'', JBool True)]])],
      [(''id'', JStr ''C2''), (''messages'', JArr [JObj [(''content'', JStr ''Goodbye'')]])]]"
  have h1: "''WORLD'' \<noteq> []" by simp
  have h2: "\<forall>c\<in>set ?convs. conv_ok c"
    by (simp add: conv_ok_def messages_ok_def message_seq_def message_ok_def)
  have f: "filter (has_keyword ''WORLD'') ?convs = [?convs ! 0]"
    by (simp add: has_keyword_def message_seq_def message_text_def ci_substring_def lower_def
        chr_lower_def)
  have s: "scan_messages ''WORLD'' [JObj [(''content'', JStr ''Hello world'')]] = Inr True"
    by (simp add: dict_get_def lower_in_def lower_def chr_lower_def)
  note ks = keyword_search [OF h1 h2]
  from ks f have "search_conversations ?convs [] ''WORLD'' = Inr [?convs ! 0]" by simp
  moreover from ks s
  have "scan_messages ''WORLD'' ([JObj [(''content'', JStr ''Hello world'')]] @ [JNull]) = Inr True"
    by blast
  ultimately show ?thesis by simp
qed

text \<open>
  Claim C10. In the user search, when the email term is not empty the result does not
  depend on the user-id term: it is the result of the search by email alone, which on a
  snapshot of the data model is the list of the users whose email contains the term,
  whatever the case of the letters. In the conversation search, when the
  conversation-id term is not empty the result does not depend on the keyword: it is
  the list of the conversations whose id is the term.
\<close>

theorem search_precedence:
  "(e \<noteq> [] \<longrightarrow> search_users users e uid = search_users users e [])
   \<and> (e \<noteq> [] \<and> (\<forall>u\<in>set users. email_ok u) \<longrightarrow>
        search_users users e uid = Inr (filter (\<lambda>u. ci_substring e (email_text u)) users))
   \<and> (cid \<noteq> [] \<longrightarrow> search_conversations convs cid kw = search_conversations convs cid [])
   \<and> (cid \<noteq> [] \<longrightarrow>
        search_conversations convs cid kw
          = Inr (filter (\<lambda>c. map_of c ''id'' = Some (JStr cid)) convs))"
proof (intro conjI impI)
  show "search_users users e uid = search_users users e []" if "e \<noteq> []"
    using that by (simp add: search_users_def)
  show "search_users users e uid = Inr (filter (\<lambda>u. ci_substring e (email_text u)) users)"
    if "e \<noteq> [] \<and> (\<forall>u\<in>set users. email_ok u)"
    using that by (simp add: search_users_def filterE_total email_matches_ok)
  show "search_conversations convs cid kw = search_conversations convs cid []" if "cid \<noteq> []"
    using that by (simp add: search_conversations_def)
  show "search_conversations convs cid kw
          = Inr (filter (\<lambda>c. map_of c ''id'' = Some (JStr cid)) convs)"
    if "cid \<noteq> []"
    using that by (auto simp: search_conversations_def id_is_iff intro: filter_cong)
qed

theorem search_precedence_witness:
  "search_users
     [[(''id'', JStr ''u1''), (''email'', JStr ''Alice@example.org'')],
      [(''id'', JStr ''u2''), (''email'', JStr ''bob@example.org'')]]
     ''ALICE'' ''u2''
   = Inr [[(''id'', JStr ''u1''), (''email'', JStr ''Alice@example.org'')]]
   \<and> search_conversations
       [[(''id'', JStr ''c1''), (''messages'', JArr [JObj [(''content'', JStr ''Hello'')]])],
        [(''id'', JStr ''c2''), (''messages'', JArr [JObj [(''content'', JStr ''Hello world'')]])]]
       ''c1'' ''world''
     = Inr [[(''id'', JStr ''c1''), (''messages'', JArr [JObj [(''content'', JStr ''Hello'')]])]]"
proof -
  let ?users =
    "[[(''id'', JStr ''u1''), (''email'', JStr ''Alice@example.org'')],
      [(''id'', JStr ''u2''), (''email'', JStr ''bob@example.org'')]]"
  let ?convs =
    "[[(''id'', JStr ''c1''), (''messages'', JArr [JObj [(''content'', JStr ''Hello'')]])],
      [(''id'', JStr ''c2''), (''messages'', JArr [JObj [(''content'', JStr ''Hello world'')]])]]"
  have h1: "''ALICE'' \<noteq> [] \<and> (\<forall>u\<in>set ?users. email_ok u)"
    by (simp add: email_ok_def)
  have h2: "''c1'' \<noteq> []" by simp
  note sp = search_precedence [of "''ALICE''" ?users "''u2''" "''c1''" ?convs "''world''"]
  from sp h1 have
    "search_users ?users ''ALICE'' ''u2''
       = Inr (filter (\<lambda>u. ci_substring ''ALICE'' (email_text u)) ?users)"
    by blast
  then have u: "search_users ?users ''ALICE'' ''u2'' = Inr [?users ! 0]"
    by (simp add: ci_substring_def lower_def chr_lower_def email_text_def)
  from sp h2 have
    "search_conversations ?convs ''c1'' ''world''
       = Inr (filter (\<lambda>c. map_of c ''id'' = Some (JStr ''c1'')) ?convs)"
    by blast
  then have c: "search_conversations ?convs ''c1'' ''world'' = Inr [?convs ! 0]"
    by simp
  from u c show ?thesis by simp
qed
subsection \<open>Export\<close>

text \<open>
  Claim C7, as amended. For every filtered list of users, each row of the full export
  has exactly the columns \<open>Email\<close>, \<open>Plan\<close>, \<open>Prenom\<close>, \<open>Nom\<close>, \<open>Verifie\<close>, \<open>Cree le\<close>,
  \<open>Requetes quotidiennes\<close> in this order (the French header texts of lines 282 to 288,
  with their accents), each row of the short export has exactly the columns \<open>Email\<close>,
  \<open>Plan\<close>; both exports have one row for each user, in the order of the list; and the
  \<open>Email\<close> cell of a user without email field holds \<open>N/A\<close> in both.
\<close>

theorem export_projection:
  "(\<forall>row\<in>set (export_data filtered).
       map fst row
         = [''Email'', ''Plan'', Prenom, ''Nom'', Verifie, Cree_le, Requetes_quotidiennes])
   \<and> (\<forall>row\<in>set (simple_data filtered). map fst row = [''Email'', ''Plan''])
   \<and> length (export_data filtered) = length filtered
   \<and> length (simple_data filtered) = length filtered
   \<and> (\<forall>i<length filtered. map_of (filtered ! i) ''email'' = None \<longrightarrow>
         map_of (export_data filtered ! i) ''Email'' = Some (JStr ''N/A'')
         \<and> map_of (simple_data filtered ! i) ''Email'' = Some (JStr ''N/A''))"
  by (auto simp: export_data_def simple_data_def export_row_def simple_row_def dict_get_def)

theorem export_projection_witness:
  "map (map fst) (export_data [[(''id'', JStr ''u1''), (''plan'', JStr ''pro'')]])
     = [[''Email'', ''Plan'', ''Pr'' @ [CHR 0xE9] @ ''nom'', ''Nom'',
         ''V'' @ [CHR 0xE9] @ ''rifi'' @ [CHR 0xE9], ''Cr'' @ [CHR 0xE9, CHR 0xE9] @ '' le'',
         ''Requ'' @ [CHR 0xEA] @ ''tes quotidiennes'']]
   \<and> map (map fst) (simple_data [[(''id'', JStr ''u1''), (''plan'', JStr ''pro'')]])
     = [[''Email'', ''Plan'']]
   \<and> map_of (export_data [[(''id'', JStr ''u1''), (''plan'', JStr ''pro'')]] ! 0) ''Email''
     = Some (JStr ''N/A'')
   \<and> map_of (simple_data [[(''id'', JStr ''u1''), (''plan'', JStr ''pro'')]] ! 0) ''Email''
     = Some (JStr ''N/A'')"
proof -
  let ?f = "[[(''id'', JStr ''u1''), (''plan'', JStr ''pro'')]]"
  note ep = export_projection [of ?f]
  have e: "export_data ?f = [export_row (?f ! 0)]" and s: "simple_data ?f = [simple_row (?f ! 0)]"
    by (simp_all add: export_data_def simple_data_def)
  have h: "0 < length ?f \<and> map_of (?f ! 0) ''email'' = None" by simp
  from ep e have
    "map fst (export_row (?f ! 0))
       = [''Email'', ''Plan'', Prenom, ''Nom'', Verifie, Cree_le, Requetes_quotidiennes]"
    by simp
  moreover from ep s have "map fst (simple_row (?f ! 0)) = [''Email'', ''Plan'']"
    by simp
  moreover from ep h have
    "map_of (export_data ?f ! 0) ''Email'' = Some (JStr ''N/A'')
     \<and> map_of (simple_data ?f ! 0) ''Email'' = Some (JStr ''N/A'')"
    by blast
  ultimately show ?thesis
    using e s by (simp add: Prenom_def Verifie_def Cree_le_def Requetes_quotidiennes_def)
qed

text \<open>
  The claim as first stated fails on the header texts: the rows of the full export do
  not have the columns \<open>First Name\<close>, \<open>Last Name\<close>, \<open>Verified\<close>, \<open>Created At\<close> and
  \<open>Daily Requests\<close>.
\<close>

theorem export_headers_counterexample:
  "map (map fst) (export_data [[(''id'', JStr ''u1''), (''plan'', JStr ''pro'')]])
     \<noteq> [[''Email'', ''Plan'', ''First Name'', ''Last Name'', ''Verified'', ''Created At'',
          ''Daily Requests'']]"
  by (simp add: export_data_def export_row_def Prenom_def)

subsection \<open>Cache\<close>

lemma load_users_snapshot:
  "load_users t1 s1 c = (Inr v, c1) \<Longrightarrow> cached t2 (users_snapshot c1) = Some w \<Longrightarrow> w = v"
  by (auto simp: load_users_def cached_def split: option.splits sum.splits if_splits)

lemma load_conversations_snapshot:
  "load_conversations t1 s1 c = (Inr v, c1) \<Longrightarrow>
   cached t2 (conversations_snapshot c1) = Some w \<Longrightarrow> w = v"
  by (auto simp: load_conversations_def cached_def split: option.splits sum.splits if_splits)

text \<open>
  Claim C1. Take a call of \<open>load_users\<close> at time \<open>t1\<close> that returns the collection \<open>v\<close>
  and leaves the cache \<open>c1\<close>, and a second call at time \<open>t2\<close> on this cache, made while
  the snapshot of \<open>c1\<close> is younger than the window of 60 seconds. Whatever the store
  holds at the second call, the second call returns the same collection \<open>v\<close> (the same
  list: same elements, same order) and leaves the cache as it is, so that no query has
  been issued to the store. The same holds for \<open>load_conversations\<close>.
\<close>

theorem cache_idempotence:
  "(load_users t1 s1 c = (Inr v, c1) \<and> cached t2 (users_snapshot c1) \<noteq> None \<longrightarrow>
      load_users t2 s2 c1 = (Inr v, c1) \<and> issued (snd (load_users t2 s2 c1)) = issued c1)
   \<and> (load_conversations t1 s1 c = (Inr v, c1)
        \<and> cached t2 (conversations_snapshot c1) \<noteq> None \<longrightarrow>
      load_conversations t2 s2 c1 = (Inr v, c1)
      \<and> issued (snd (load_conversations t2 s2 c1)) = issued c1)"
proof (intro conjI impI)
  assume a: "load_users t1 s1 c = (Inr v, c1) \<and> cached t2 (users_snapshot c1) \<noteq> None"
  then obtain w where w: "cached t2 (users_snapshot c1) = Some w" by blast
  with a have "w = v" using load_users_snapshot by blast
  with w show "load_users t2 s2 c1 = (Inr v, c1)" by (simp add: load_users_def)
  then show "issued (snd (load_users t2 s2 c1)) = issued c1" by simp
next
  assume a: "load_conversations t1 s1 c = (Inr v, c1)
               \<and> cached t2 (conversations_snapshot c1) \<noteq> None"
  then obtain w where w: "cached t2 (conversations_snapshot c1) = Some w" by blast
  with a have "w = v" using load_conversations_snapshot by blast
  with w show "load_conversations t2 s2 c1 = (Inr v, c1)"
    by (simp add: load_conversations_def)
  then show "issued (snd (load_conversations t2 s2 c1)) = issued c1" by simp
qed

theorem cache_idempotence_witness:
  "load_users 100
     \<lparr>users_items = Inr [[(''id'', JStr ''u1'')]], conversations_items = Inr []\<rparr>
     \<lparr>users_snapshot = None, conversations_snapshot = None, issued = []\<rparr>
   = (Inr [[(''id'', JStr ''u1'')]],
      \<lparr>users_snapshot = Some ([[(''id'', JStr ''u1'')]], 100), conversations_snapshot = None,
       issued = [Users_query]\<rparr>)
   \<and> load_users 159
       \<lparr>users_items = Inr [[(''id'', JStr ''u1'')], [(''id'', JStr ''u2'')]],
        conversations_items = Inl (DataAccessError ''unreachable'')\<rparr>
       \<lparr>users_snapshot = Some ([[(''id'', JStr ''u1'')]], 100), conversations_snapshot = None,
        issued = [Users_query]\<rparr>
     = (Inr [[(''id'', JStr ''u1'')]],
        \<lparr>users_snapshot = Some ([[(''id'', JStr ''u1'')]], 100), conversations_snapshot = None,
         issued = [Users_query]\<rparr>)
   \<and> load_conversations 130
       \<lparr>users_items = Inr [], conversations_items = Inl (DataAccessError ''unreachable'')\<rparr>
       \<lparr>users_snapshot = None, conversations_snapshot = Some ([[(''id'', JStr ''c1'')]], 71),
        issued = [Conversations_query]\<rparr>
     = (Inr [[(''id'', JStr ''c1'')]],
        \<lparr>users_snapshot = None, conversations_snapshot = Some ([[(''id'', JStr ''c1'')]], 71),
         issued = [Conversations_query]\<rparr>)"
proof -
  let ?s1 = "\<lparr>users_items = Inr [[(''id'', JStr ''u1'')]], conversations_items = Inr []\<rparr>"
  let ?s2 = "\<lparr>users_items = Inr [[(''id'', JStr ''u1'')], [(''id'', JStr ''u2'')]],
             conversations_items = Inl (DataAccessError ''unreachable'')\<rparr>"
  let ?s3 = "\<lparr>users_items = Inr [], conversations_items = Inl (DataAccessError ''unreachable'')\<rparr>"
  let ?c0 = "\<lparr>users_snapshot = None, conversations_snapshot = None, issued = []\<rparr>"
  let ?c1 = "\<lparr>users_snapshot = Some ([[(''id'', JStr ''u1'')]], 100),
             conversations_snapshot = None, issued = [Users_query]\<rparr>"
  let ?k0 = "\<lparr>users_snapshot = None, conversations_snapshot = None, issued = []\<rparr>"
  let ?k1 = "\<lparr>users_snapshot = None,
             conversations_snapshot = Some ([[(''id'', JStr ''c1'')]], 71),
             issued = [Conversations_query]\<rparr>"
  let ?ks = "\<lparr>users_items = Inr [], conversations_items = Inr [[(''id'', JStr ''c1'')]]\<rparr>"
  have u1: "load_users 100 ?s1 ?c0 = (Inr [[(''id'', JStr ''u1'')]], ?c1)"
    by (simp add: load_users_def load_users_body_def cached_def)
  have u2: "cached 159 (users_snapshot ?c1) \<noteq> None"
    by (simp add: cached_def ttl_def)
  have k1: "load_conversations 71 ?ks ?k0 = (Inr [[(''id'', JStr ''c1'')]], ?k1)"
    by (simp add: load_conversations_def load_conversations_body_def cached_def)
  have k2: "cached 130 (conversations_snapshot ?k1) \<noteq> None"
    by (simp add: cached_def ttl_def)
  from cache_idempotence [of 100 ?s1 ?c0 "[[(''id'', JStr ''u1'')]]" ?c1 159 ?s2] u1 u2
  have a: "load_users 159 ?s2 ?c1 = (Inr [[(''id'', JStr ''u1'')]], ?c1)"
    by blast
  from cache_idempotence [of 71 ?ks ?k0 "[[(''id'', JStr ''c1'')]]" ?k1 130 ?s3] k1 k2
  have b: "load_conversations 130 ?s3 ?k1 = (Inr [[(''id'', JStr ''c1'')]], ?k1)"
    by blast
  from u1 a b show ?thesis by simp
qed

end
